theory Spec2Isabelle
  imports Main "HOL-Library.Word"
begin

unbundle bit_operations_syntax

section \<open>xsync::XScope: lock elision with a fallback lock (ext/xsync/include/scope.hpp)\<close>

text \<open>
  \<^verbatim>\<open>XScope<LockType>\<close> is an RAII guard: its constructor runs \<^verbatim>\<open>enter()\<close>, its
  destructor runs \<^verbatim>\<open>exit()\<close>. \<^verbatim>\<open>enter\<close> tries to start a hardware transaction
  (Intel RTM) a bounded number of times and otherwise takes the fallback lock;
  \<^verbatim>\<open>exit\<close> ends the critical section and runs the registered callbacks.

  The embedding is sequential: it follows one thread through \<^verbatim>\<open>enter\<close> and
  \<^verbatim>\<open>exit\<close>. Every call of a primitive the class does not define itself (the RTM
  intrinsics, the lock operations, the lock query, a callback) is appended to a trace
  kept in the state, so that which primitives run, how often and in which order
  can be stated about the functions as they are written.
\<close>

subsection \<open>The RTM interface\<close>

text \<open>
  \<^verbatim>\<open>unsigned int xact_status\<close> is a 32-bit word; the \<^verbatim>\<open>int\<close> loop counter and retry
  bound are 32-bit words read as two's complement with \<open>sint\<close>.
\<close>

type_synonym status = "32 word"
type_synonym cint = "32 word"

text \<open>
  The header that declares \<^verbatim>\<open>_xbegin\<close>, \<^verbatim>\<open>_xabort\<close>, \<^verbatim>\<open>_xend\<close> and the macros
  \<^verbatim>\<open>_XBEGIN_STARTED\<close>, \<^verbatim>\<open>_XABORT_EXPLICIT\<close>, \<^verbatim>\<open>_XABORT_RETRY\<close>,
  \<^verbatim>\<open>_XABORT_CODE\<close> (spinlock-rtm.hpp; the include of immintrin.h is commented out) is
  not part of the sources at hand. Their values are therefore parameters of the model:
  every function below takes the record \<open>hw\<close>. The field \<open>xabort_status\<close> is the status
  word that the hardware delivers at the return point of \<^verbatim>\<open>_xbegin\<close> after
  \<^verbatim>\<open>_xabort(code)\<close> has rolled the transaction back.
\<close>

record rtm =
  XBEGIN_STARTED :: status
  XABORT_EXPLICIT :: status
  XABORT_RETRY :: status
  XABORT_CODE :: "status \<Rightarrow> status"
  xabort_status :: "status \<Rightarrow> status"

text \<open>
  The values of Intel's RTM intrinsics (\<^verbatim>\<open>_XBEGIN_STARTED = ~0u\<close>,
  \<^verbatim>\<open>_XABORT_EXPLICIT = 1 << 0\<close>, \<^verbatim>\<open>_XABORT_RETRY = 1 << 1\<close>,
  \<^verbatim>\<open>_XABORT_CODE(x) = ((x) >> 24) & 0xFF\<close>; an explicit abort reports bit 0 and the
  code in bits 31:24). They are used to run the model on concrete inputs only; the
  general theorems hold for every \<open>hw\<close>.
\<close>

definition intel_rtm :: rtm where
  "intel_rtm =
     \<lparr>XBEGIN_STARTED = 0xFFFFFFFF,
      XABORT_EXPLICIT = 1,
      XABORT_RETRY = 2,
      XABORT_CODE = (\<lambda>x. drop_bit 24 x AND 0xFF),
      xabort_status = (\<lambda>c. push_bit 24 (c AND 0xFF) OR 1)\<rparr>"

subsection \<open>The fallback lock and the state of the run\<close>

text \<open>
  Modelled from the spec: the FallbackLock capability (lock.hpp and the lock types are
  not part of the sources at hand). \<^verbatim>\<open>acquire()\<close> blocks the caller until it owns the
  lock exclusively, \<^verbatim>\<open>release()\<close> gives the lock up. The state of the lock is seen from
  the thread that runs the scope: free, held by another thread, or held by this thread.
  The blocking of \<^verbatim>\<open>acquire()\<close> is assumed to end: any other holder releases the lock.
\<close>

datatype lock_state = Free | HeldByOther | HeldBySelf

datatype event =
    XBegin
  | IsFallbackLocked
  | XAbort status
  | XEnd
  | Lock
  | Unlock
  | Callback nat

text \<open>
  \<open>xbegin_results\<close> is what the hardware answers to the successive calls of
  \<^verbatim>\<open>_xbegin\<close>: the \<open>k\<close>-th call (counted by \<open>xbegins\<close>) returns \<open>xbegin_results k\<close>,
  which is \<^verbatim>\<open>_XBEGIN_STARTED\<close> or the status of an abort. A transaction that starts
  and is rolled back later for a reason of the hardware's own returns from the same
  \<^verbatim>\<open>_xbegin\<close> with the abort status, its effects undone; it is the same run as the one in
  which that call returns the abort status at once.
\<close>

record world =
  fallback :: lock_state
  in_txn :: bool
  xbegin_results :: "nat \<Rightarrow> status"
  xbegins :: nat
  trace :: "event list"

definition emit :: "event \<Rightarrow> world \<Rightarrow> world" where
  "emit e w = w\<lparr>trace := trace w @ [e]\<rparr>"

text \<open>
  Modelled from the spec: the hardware primitives, whose declarations are in the missing
  header. \<^verbatim>\<open>_xbegin()\<close> begins a transaction and returns \<^verbatim>\<open>_XBEGIN_STARTED\<close>, or
  returns the status of the abort; \<^verbatim>\<open>_xabort(code)\<close> aborts the open transaction
  explicitly with a code chosen by the caller, and the abort is what the same pass
  observes next; \<^verbatim>\<open>_xend()\<close> commits. The model records each call in the trace and
  keeps in \<open>in_txn\<close> whether a transaction is open. What the processor does with an
  \<^verbatim>\<open>_xend()\<close> outside a transaction is not modelled: the call is recorded and nothing
  else happens.
\<close>

definition xbegin :: "rtm \<Rightarrow> world \<Rightarrow> status \<times> world" where
  "xbegin hw w =
     (let s = xbegin_results w (xbegins w)
      in (s, emit XBegin (w\<lparr>xbegins := Suc (xbegins w), in_txn := (s = XBEGIN_STARTED hw)\<rparr>)))"

definition xabort :: "rtm \<Rightarrow> status \<Rightarrow> world \<Rightarrow> status \<times> world" where
  "xabort hw code w = (xabort_status hw code, emit (XAbort code) (w\<lparr>in_txn := False\<rparr>))"

definition xend :: "world \<Rightarrow> world" where
  "xend w = emit XEnd (w\<lparr>in_txn := False\<rparr>)"

text \<open>
  \<^verbatim>\<open>lockFallback()\<close> is \<^verbatim>\<open>fallback_.lock()\<close> (\<^verbatim>\<open>pthread_mutex_lock\<close> for a pthread
  mutex), \<^verbatim>\<open>unlockFallback()\<close> is \<^verbatim>\<open>fallback_.unlock()\<close>.
\<close>

definition lockFallback :: "world \<Rightarrow> world" where
  "lockFallback w = emit Lock (w\<lparr>fallback := HeldBySelf\<rparr>)"

definition unlockFallback :: "world \<Rightarrow> world" where
  "unlockFallback w = emit Unlock (w\<lparr>fallback := Free\<rparr>)"

text \<open>
  \<^verbatim>\<open>isFallbackLocked()\<close> is the member that a lock type is meant to specialise. The
  class template defines it as \<^verbatim>\<open>return false\<close>, and the two specialisations in the
  file (for \<^verbatim>\<open>spinlock_t\<close> and \<^verbatim>\<open>pthread_mutex_t\<close>) are commented out, so
  \<open>isFallbackLocked\<close> below is the definition every lock type gets. The functions of
  the scope take the query as the parameter \<open>q\<close>, a function of the lock's state, so
  that both branches of the code that calls it can be reached; \<open>isFallbackLocked_mutex\<close>
  is the commented-out query of the pthread mutex (\<^verbatim>\<open>__data.__lock != 0\<close>).
\<close>

definition isFallbackLocked :: "lock_state \<Rightarrow> bool" where
  "isFallbackLocked l = False"

definition isFallbackLocked_mutex :: "lock_state \<Rightarrow> bool" where
  "isFallbackLocked_mutex l = (l \<noteq> Free)"

definition query :: "(lock_state \<Rightarrow> bool) \<Rightarrow> world \<Rightarrow> bool \<times> world" where
  "query q w = (q (fallback w), emit IsFallbackLocked w)"

subsection \<open>enter\<close>

text \<open>
  How one pass through the body of the \<^verbatim>\<open>for\<close> loop ends: with the \<^verbatim>\<open>return\<close> of
  line 54, with the \<^verbatim>\<open>break\<close> of line 70, or at the end of the body, from where the
  loop goes on to \<^verbatim>\<open>++attempt\<close>.
\<close>

datatype ctl = Return | Break | Continue

text \<open>The \<^verbatim>\<open>else\<close> branch of lines 60 to 72: the transaction has aborted.\<close>

definition on_abort :: "rtm \<Rightarrow> status \<Rightarrow> world \<Rightarrow> ctl \<times> world" where
  "on_abort hw xact_status w =
     (if xact_status AND XABORT_EXPLICIT hw \<noteq> 0 \<and> XABORT_CODE hw xact_status = 0xFF
      then (Continue, unlockFallback (lockFallback w))
      else if xact_status AND XABORT_RETRY hw = 0
      then (Break, w)
      else (Continue, w))"

text \<open>
  The body of the loop, lines 47 to 72. \<^verbatim>\<open>_xabort(0xFF)\<close> does not return: the
  hardware rolls back to the \<^verbatim>\<open>_xbegin\<close> of this pass, which now returns the abort
  status, and the pass goes on in the \<^verbatim>\<open>else\<close> branch.
\<close>

definition attempt_body :: "rtm \<Rightarrow> (lock_state \<Rightarrow> bool) \<Rightarrow> world \<Rightarrow> ctl \<times> world" where
  "attempt_body hw q w =
     (let (xact_status, w1) = xbegin hw w in
      if xact_status = XBEGIN_STARTED hw then
        (let (locked, w2) = query q w1 in
         if \<not> locked then (Return, w2)
         else (let (xact_status', w3) = xabort hw 0xFF w2 in on_abort hw xact_status' w3))
      else on_abort hw xact_status w1)"

text \<open>
  With which of its two \<^verbatim>\<open>return\<close>s \<^verbatim>\<open>enter\<close> ends: inside the transaction (line 54)
  or after \<^verbatim>\<open>lockFallback()\<close> (line 75). The class stores no such field; the model
  returns it so that theorems can speak about it.
\<close>

datatype mode = Transactional | Locked

text \<open>
  \<^verbatim>\<open>++attempt\<close> on an \<^verbatim>\<open>int\<close> that holds \<^verbatim>\<open>INT_MAX\<close> is undefined behaviour in C++.
  The loop reaches it only when \<^verbatim>\<open>nretries\<close> is \<^verbatim>\<open>INT_MAX\<close>; the model stops there with
  a fault instead of giving the overflow a meaning.
\<close>

datatype fault = SignedOverflow

definition INT_MAX :: cint where
  "INT_MAX = 0x7FFFFFFF"

function enter_loop ::
  "rtm \<Rightarrow> (lock_state \<Rightarrow> bool) \<Rightarrow> cint \<Rightarrow> cint \<Rightarrow> world \<Rightarrow> fault + mode \<times> world" where
  "enter_loop hw q nretries attempt w =
     (if sint attempt \<le> sint nretries then
        (case attempt_body hw q w of
           (Return, w') \<Rightarrow> Inr (Transactional, w')
         | (Break, w') \<Rightarrow> Inr (Locked, lockFallback w')
         | (Continue, w') \<Rightarrow>
             if attempt = INT_MAX then Inl SignedOverflow
             else enter_loop hw q nretries (attempt + 1) w')
      else Inr (Locked, lockFallback w))"
  by pat_completeness auto
termination
proof (relation "measure (\<lambda>(hw, q, nretries, attempt, w). nat (sint nretries - sint attempt + 1))")
  show "wf (measure (\<lambda>(hw, q, nretries, attempt, w). nat (sint nretries - sint attempt + 1)))"
    by simp
next
  fix hw :: rtm and q :: "lock_state \<Rightarrow> bool" and nretries attempt :: cint and w :: world
    and x :: "ctl \<times> world" and x1 :: ctl and x2 :: world
  assume le: "sint attempt \<le> sint nretries" and ne: "attempt \<noteq> INT_MAX"
  have "sint attempt \<noteq> 2147483647"
  proof
    assume "sint attempt = 2147483647"
    then have "word_of_int (sint attempt) = (word_of_int 2147483647 :: cint)" by simp
    then show False using ne by (simp add: INT_MAX_def)
  qed
  moreover have "sint attempt < 2147483648" "- 2147483648 \<le> sint attempt"
    using sint_lt [of attempt] sint_ge [of attempt] by simp_all
  ultimately have "- 2147483648 \<le> sint attempt + 1" "sint attempt + 1 < 2147483648"
    by simp_all
  then have "sint (attempt + 1) = sint attempt + 1"
    by (simp add: sint_word_ariths signed_take_bit_int_eq_self)
  with le show "((hw, q, nretries, attempt + 1, x2), hw, q, nretries, attempt, w)
      \<in> measure (\<lambda>(hw, q, nretries, attempt, w). nat (sint nretries - sint attempt + 1))"
    by simp
qed

declare enter_loop.simps [simp del]

definition enter :: "rtm \<Rightarrow> (lock_state \<Rightarrow> bool) \<Rightarrow> cint \<Rightarrow> world \<Rightarrow> fault + mode \<times> world" where
  "enter hw q nretries w = enter_loop hw q nretries 0 w"

text \<open>
  The constructor, line 27: it takes the lock reference and nothing else, and calls
  \<^verbatim>\<open>enter()\<close> with no argument, that is with the default \<^verbatim>\<open>nretries = 3\<close> of line 43.
  The vector of callbacks starts empty. A callback is modelled by a number that names
  the handler; calling it appends \<open>Callback\<close> of that number to the trace.
\<close>

record XScope =
  cbs :: "nat list"

definition construct ::
  "rtm \<Rightarrow> (lock_state \<Rightarrow> bool) \<Rightarrow> world \<Rightarrow> fault + XScope \<times> mode \<times> world" where
  "construct hw q w =
     (case enter hw q 3 w of
        Inl f \<Rightarrow> Inl f
      | Inr (m, w') \<Rightarrow> Inr (\<lparr>cbs = []\<rparr>, m, w'))"

subsection \<open>registerCommitCallback and exit\<close>

definition registerCommitCallback :: "XScope \<Rightarrow> nat \<Rightarrow> XScope" where
  "registerCommitCallback sc cb = sc\<lparr>cbs := cbs sc @ [cb]\<rparr>"

text \<open>
  \<^verbatim>\<open>exit()\<close>, lines 78 to 89: it asks \<^verbatim>\<open>isFallbackLocked()\<close> again and unlocks or
  commits by the answer, then calls the callbacks in the order of the vector.
\<close>

definition exit :: "(lock_state \<Rightarrow> bool) \<Rightarrow> XScope \<Rightarrow> world \<Rightarrow> world" where
  "exit q sc w =
     (let (locked, w1) = query q w;
          w2 = (if locked then unlockFallback w1 else xend w1)
      in foldl (\<lambda>v cb. emit (Callback cb) v) w2 (cbs sc))"

subsection \<open>Observations used by the theorems\<close>

text \<open>
  The abort that a pass of the loop observes, with the state in which the \<^verbatim>\<open>else\<close>
  branch of line 60 starts: the status that \<^verbatim>\<open>_xbegin\<close> returns when the transaction
  does not start, or the status delivered after the \<^verbatim>\<open>_xabort(0xFF)\<close> of line 57.
  \<open>None\<close> when the pass observes no abort (the transaction starts and the lock is
  reported free).
\<close>

definition abort_point :: "rtm \<Rightarrow> (lock_state \<Rightarrow> bool) \<Rightarrow> world \<Rightarrow> (status \<times> world) option" where
  "abort_point hw q w =
     (let s = xbegin_results w (xbegins w);
          w1 = w\<lparr>xbegins := Suc (xbegins w)\<rparr>
      in if s \<noteq> XBEGIN_STARTED hw
         then Some (s, w1\<lparr>in_txn := False, trace := trace w @ [XBegin]\<rparr>)
         else if q (fallback w)
         then Some (xabort_status hw 0xFF,
                    w1\<lparr>in_txn := False, trace := trace w @ [XBegin, IsFallbackLocked, XAbort 0xFF]\<rparr>)
         else None)"

text \<open>The abort is the reserved contention abort: line 62.\<close>

definition contention :: "rtm \<Rightarrow> status \<Rightarrow> bool" where
  "contention hw s = (s AND XABORT_EXPLICIT hw \<noteq> 0 \<and> XABORT_CODE hw s = 0xFF)"

text \<open>
  The pass aborts without a started transaction and the loop goes on to \<^verbatim>\<open>++attempt\<close>:
  the status is the contention abort, or it carries the retry hint.
\<close>

definition keeps_going :: "rtm \<Rightarrow> status \<Rightarrow> bool" where
  "keeps_going hw s = (s \<noteq> XBEGIN_STARTED hw \<and> (contention hw s \<or> s AND XABORT_RETRY hw \<noteq> 0))"

text \<open>How often an event occurs in a trace.\<close>

definition occurrences :: "event \<Rightarrow> world \<Rightarrow> nat" where
  "occurrences e w = count_list (trace w) e"

text \<open>A state to start from: nothing has run yet.\<close>

definition initial :: "lock_state \<Rightarrow> (nat \<Rightarrow> status) \<Rightarrow> world" where
  "initial l r = \<lparr>fallback = l, in_txn = False, xbegin_results = r, xbegins = 0, trace = []\<rparr>"

text \<open>Answers of the hardware for concrete runs: the same status at every call.\<close>

definition every_time :: "status \<Rightarrow> nat \<Rightarrow> status" where
  "every_time s k = s"

section \<open>Properties\<close>

subsection \<open>The loop, pass by pass\<close>

lemma attempt_body_cases:
  "attempt_body hw q w =
     (case abort_point hw q w of
        None \<Rightarrow> (Return, w\<lparr>xbegins := Suc (xbegins w), in_txn := True,
                            trace := trace w @ [XBegin, IsFallbackLocked]\<rparr>)
      | Some (s, wa) \<Rightarrow> on_abort hw s wa)"
  by (simp add: attempt_body_def abort_point_def xbegin_def query_def xabort_def emit_def Let_def)

lemma on_abort_contention:
  "contention hw s \<Longrightarrow>
     on_abort hw s w = (Continue, w\<lparr>fallback := Free, trace := trace w @ [Lock, Unlock]\<rparr>)"
  by (simp add: on_abort_def contention_def lockFallback_def unlockFallback_def emit_def)

lemma on_abort_break:
  "\<not> contention hw s \<Longrightarrow> s AND XABORT_RETRY hw = 0 \<Longrightarrow> on_abort hw s w = (Break, w)"
  by (auto simp add: on_abort_def contention_def)

lemma on_abort_retry:
  "\<not> contention hw s \<Longrightarrow> s AND XABORT_RETRY hw \<noteq> 0 \<Longrightarrow> on_abort hw s w = (Continue, w)"
  by (auto simp add: on_abort_def contention_def)

lemma enter_loop_exhausted:
  "\<not> sint attempt \<le> sint nretries \<Longrightarrow>
     enter_loop hw q nretries attempt w = Inr (Locked, lockFallback w)"
  by (simp add: enter_loop.simps)

lemma enter_loop_pass:
  "sint attempt \<le> sint nretries \<Longrightarrow>
     enter_loop hw q nretries attempt w =
       (case attempt_body hw q w of
          (Return, w') \<Rightarrow> Inr (Transactional, w')
        | (Break, w') \<Rightarrow> Inr (Locked, lockFallback w')
        | (Continue, w') \<Rightarrow>
            if attempt = INT_MAX then Inl SignedOverflow
            else enter_loop hw q nretries (attempt + 1) w')"
  by (subst enter_loop.simps) simp

lemma sint_succ:
  fixes a :: cint
  assumes "a \<noteq> INT_MAX"
  shows "sint (a + 1) = sint a + 1"
proof -
  have "sint a \<noteq> 2147483647"
  proof
    assume "sint a = 2147483647"
    then have "word_of_int (sint a) = (word_of_int 2147483647 :: cint)" by simp
    then show False using assms by (simp add: INT_MAX_def)
  qed
  moreover have "sint a < 2147483648" "- 2147483648 \<le> sint a"
    using sint_lt [of a] sint_ge [of a] by simp_all
  ultimately have "- 2147483648 \<le> sint a + 1" "sint a + 1 < 2147483648" by simp_all
  then show ?thesis
    by (simp add: sint_word_ariths signed_take_bit_int_eq_self)
qed

lemma sint_INT_MAX: "sint INT_MAX = 2147483647"
  by (simp add: INT_MAX_def)

lemma sint_less_not_max:
  fixes a b :: cint
  shows "sint a < sint b \<Longrightarrow> a \<noteq> INT_MAX"
  using sint_lt [of b] by (auto simp: sint_INT_MAX)

text \<open>What one pass of the loop adds to the counts of the trace.\<close>

lemma attempt_body_counts:
  assumes "attempt_body hw q w = (c, w')"
  shows "occurrences XBegin w' = Suc (occurrences XBegin w)"
    and "occurrences Lock w' = occurrences Lock w \<and> occurrences Unlock w' = occurrences Unlock w
         \<or> occurrences Lock w' = Suc (occurrences Lock w) \<and> occurrences Unlock w' = Suc (occurrences Unlock w)"
  using assms
  by (auto simp add: attempt_body_def xbegin_def query_def xabort_def emit_def Let_def on_abort_def
      lockFallback_def unlockFallback_def occurrences_def split: if_splits)

lemma lockFallback_counts:
  "occurrences XBegin (lockFallback w) = occurrences XBegin w"
  "occurrences Lock (lockFallback w) = Suc (occurrences Lock w)"
  "occurrences Unlock (lockFallback w) = occurrences Unlock w"
  by (simp_all add: lockFallback_def emit_def occurrences_def)

lemma enter_loop_bounds:
  "nretries \<noteq> INT_MAX \<Longrightarrow>
   \<exists>m w'. enter_loop hw q nretries attempt w = Inr (m, w') \<and>
     occurrences XBegin w' \<le> occurrences XBegin w + nat (sint nretries - sint attempt + 1) \<and>
     occurrences Lock w' \<le> occurrences Lock w + nat (sint nretries - sint attempt + 1) + 1 \<and>
     occurrences Lock w' + occurrences Unlock w =
       occurrences Lock w + occurrences Unlock w' + (if m = Locked then 1 else 0)"
proof (induction hw q nretries attempt w rule: enter_loop.induct)
  case (1 hw q nretries attempt w)
  show ?case
  proof (cases "sint attempt \<le> sint nretries")
    case False
    then show ?thesis
      by (simp add: enter_loop_exhausted lockFallback_counts)
  next
    case True
    obtain c w1 where b: "attempt_body hw q w = (c, w1)"
      by (cases "attempt_body hw q w")
    note cnt = attempt_body_counts [OF b]
    have ne: "attempt \<noteq> INT_MAX"
    proof
      assume "attempt = INT_MAX"
      with True have "2147483647 \<le> sint nretries" by (simp add: sint_INT_MAX)
      moreover have "sint nretries < 2147483648" using sint_lt [of nretries] by simp
      ultimately have "sint nretries = 2147483647" by simp
      then have "word_of_int (sint nretries) = (word_of_int 2147483647 :: cint)" by simp
      then show False using "1.prems" by (simp add: INT_MAX_def)
    qed
    show ?thesis
    proof (cases c)
      case Return
      with True b cnt show ?thesis
        by (auto simp add: enter_loop_pass)
    next
      case Break
      with True b cnt show ?thesis
        by (auto simp add: enter_loop_pass lockFallback_counts)
    next
      case Continue
      from "1.IH" [OF True b [symmetric] Continue ne "1.prems"]
      obtain m w' where r: "enter_loop hw q nretries (attempt + 1) w1 = Inr (m, w')"
        and x: "occurrences XBegin w' \<le> occurrences XBegin w1 + nat (sint nretries - sint (attempt + 1) + 1)"
        and l: "occurrences Lock w' \<le> occurrences Lock w1 + nat (sint nretries - sint (attempt + 1) + 1) + 1"
        and u: "occurrences Lock w' + occurrences Unlock w1 =
       occurrences Lock w1 + occurrences Unlock w' + (if m = Locked then 1 else 0)"
        by auto
      have s: "sint (attempt + 1) = sint attempt + 1" by (rule sint_succ [OF ne])
      from True have n: "nat (sint nretries - sint attempt + 1) = Suc (nat (sint nretries - (sint attempt + 1) + 1))"
        by simp
      have "enter_loop hw q nretries attempt w = Inr (m, w')"
        using True b Continue ne r by (simp add: enter_loop_pass)
      with x l u cnt s n show ?thesis by auto
    qed
  qed
qed

lemma not_INT_MAX:
  fixes a b :: cint
  assumes "sint a \<le> sint b" and "b \<noteq> INT_MAX"
  shows "a \<noteq> INT_MAX"
proof
  assume "a = INT_MAX"
  with assms(1) have "2147483647 \<le> sint b" by (simp add: sint_INT_MAX)
  moreover have "sint b < 2147483648" using sint_lt [of b] by simp
  ultimately have "sint b = 2147483647" by simp
  then have "word_of_int (sint b) = (word_of_int 2147483647 :: cint)" by simp
  then show False using assms(2) by (simp add: INT_MAX_def)
qed

text \<open>A pass leaves the answers of the hardware alone and uses up one of them.\<close>

lemma attempt_body_oracle:
  assumes "attempt_body hw q w = (c, w')"
  shows "xbegin_results w' = xbegin_results w" and "xbegins w' = Suc (xbegins w)"
  using assms
  by (auto simp add: attempt_body_def xbegin_def query_def xabort_def emit_def Let_def on_abort_def
      lockFallback_def unlockFallback_def split: if_splits)

lemma attempt_body_keeps_going:
  assumes "keeps_going hw (xbegin_results w (xbegins w))"
  shows "\<exists>w'. attempt_body hw q w = (Continue, w') \<and> (\<exists>evs. trace w' = trace w @ evs)"
proof (cases "contention hw (xbegin_results w (xbegins w))")
  case True
  with assms show ?thesis
    by (simp add: keeps_going_def attempt_body_cases abort_point_def on_abort_contention)
next
  case False
  with assms show ?thesis
    by (simp add: keeps_going_def attempt_body_cases abort_point_def on_abort_retry)
qed

lemma attempt_body_return:
  assumes "attempt_body hw q w = (Return, w')"
  shows "in_txn w' \<and> \<not> q (fallback w')"
  using assms
  by (auto simp add: attempt_body_def xbegin_def query_def xabort_def emit_def Let_def on_abort_def
      lockFallback_def unlockFallback_def split: if_splits)

text \<open>
  When every pass aborts and goes on, the loop uses all its passes and \<^verbatim>\<open>enter\<close> ends
  with \<^verbatim>\<open>lockFallback()\<close>.
\<close>

lemma enter_loop_all_aborted:
  assumes "nretries \<noteq> INT_MAX"
    and "\<forall>k. int k \<le> sint nretries - sint attempt \<longrightarrow>
           keeps_going hw (xbegin_results w (xbegins w + k))"
  shows "\<exists>w'. enter_loop hw q nretries attempt w = Inr (Locked, w') \<and>
           fallback w' = HeldBySelf \<and>
           xbegins w' = xbegins w + nat (sint nretries - sint attempt + 1) \<and>
           (\<exists>evs. trace w' = trace w @ evs @ [Lock])"
  using assms
proof (induction hw q nretries attempt w rule: enter_loop.induct)
  case (1 hw q nretries attempt w)
  show ?case
  proof (cases "sint attempt \<le> sint nretries")
    case False
    then show ?thesis
      by (simp add: enter_loop_exhausted lockFallback_def emit_def)
  next
    case True
    have ne: "attempt \<noteq> INT_MAX"
      by (rule not_INT_MAX [OF True "1.prems"(1)])
    have s: "sint (attempt + 1) = sint attempt + 1" by (rule sint_succ [OF ne])
    from True "1.prems"(2) have "keeps_going hw (xbegin_results w (xbegins w + 0))"
      by (metis int_ops(1) diff_ge_0_iff_ge)
    then have "keeps_going hw (xbegin_results w (xbegins w))" by simp
    from attempt_body_keeps_going [OF this, of q]
    obtain w1 evs1 where b: "attempt_body hw q w = (Continue, w1)"
      and t1: "trace w1 = trace w @ evs1" by blast
    note o = attempt_body_oracle [OF b]
    have "\<forall>k. int k \<le> sint nretries - sint (attempt + 1) \<longrightarrow>
           keeps_going hw (xbegin_results w1 (xbegins w1 + k))"
    proof (intro allI impI)
      fix k assume "int k \<le> sint nretries - sint (attempt + 1)"
      with s have "int (Suc k) \<le> sint nretries - sint attempt" by simp
      with "1.prems"(2) have "keeps_going hw (xbegin_results w (xbegins w + Suc k))" by blast
      with o show "keeps_going hw (xbegin_results w1 (xbegins w1 + k))" by simp
    qed
    from "1.IH" [OF True b [symmetric] refl ne "1.prems"(1) this]
    obtain w' evs where r: "enter_loop hw q nretries (attempt + 1) w1 = Inr (Locked, w')"
      and f: "fallback w' = HeldBySelf"
      and x: "xbegins w' = xbegins w1 + nat (sint nretries - sint (attempt + 1) + 1)"
      and t: "trace w' = trace w1 @ evs @ [Lock]" by blast
    have "enter_loop hw q nretries attempt w = Inr (Locked, w')"
      using True b ne r by (simp add: enter_loop_pass)
    moreover have "xbegins w' = xbegins w + nat (sint nretries - sint attempt + 1)"
      using x o s True by simp
    moreover have "trace w' = trace w @ (evs1 @ evs) @ [Lock]"
      using t t1 by simp
    ultimately show ?thesis using f by blast
  qed
qed

text \<open>
  With \<^verbatim>\<open>nretries = INT_MAX\<close> the condition \<^verbatim>\<open>attempt <= nretries\<close> holds for every
  \<^verbatim>\<open>int\<close>: when every pass aborts and goes on, the loop reaches \<^verbatim>\<open>++attempt\<close> at
  \<^verbatim>\<open>INT_MAX\<close>.
\<close>

lemma enter_loop_overflow:
  assumes "nretries = INT_MAX"
    and "\<forall>k. keeps_going hw (xbegin_results w k)"
  shows "enter_loop hw q nretries attempt w = Inl SignedOverflow"
  using assms
proof (induction hw q nretries attempt w rule: enter_loop.induct)
  case (1 hw q nretries attempt w)
  have le: "sint attempt \<le> sint nretries"
    using sint_lt [of attempt] "1.prems"(1) by (simp add: sint_INT_MAX)
  from "1.prems"(2) have "keeps_going hw (xbegin_results w (xbegins w))" by blast
  from attempt_body_keeps_going [OF this, of q]
  obtain w1 where b: "attempt_body hw q w = (Continue, w1)" by blast
  show ?case
  proof (cases "attempt = INT_MAX")
    case True
    with le b show ?thesis by (simp add: enter_loop_pass)
  next
    case False
    from "1.prems"(2) attempt_body_oracle(1) [OF b]
    have "\<forall>k. keeps_going hw (xbegin_results w1 k)" by simp
    from "1.IH" [OF le b [symmetric] refl False "1.prems"(1) this] le b False
    show ?thesis by (simp add: enter_loop_pass)
  qed
qed

text \<open>
  What the two ways of returning leave behind: after the \<^verbatim>\<open>return\<close> of line 54 the
  transaction is open and the query has just answered "not held"; after line 75 this
  thread holds the lock.
\<close>

lemma enter_loop_mode:
  assumes "enter_loop hw q nretries attempt w = Inr (m, w')"
  shows "(m = Locked \<longrightarrow> fallback w' = HeldBySelf) \<and>
         (m = Transactional \<longrightarrow> in_txn w' \<and> \<not> q (fallback w'))"
  using assms
proof (induction hw q nretries attempt w rule: enter_loop.induct)
  case (1 hw q nretries attempt w)
  show ?case
  proof (cases "sint attempt \<le> sint nretries")
    case False
    with "1.prems" show ?thesis
      by (auto simp add: enter_loop_exhausted lockFallback_def emit_def)
  next
    case True
    obtain c w1 where b: "attempt_body hw q w = (c, w1)"
      by (cases "attempt_body hw q w")
    show ?thesis
    proof (cases c)
      case Return
      with True b "1.prems" attempt_body_return [of hw q w w1] show ?thesis
        by (auto simp add: enter_loop_pass)
    next
      case Break
      with True b "1.prems" show ?thesis
        by (auto simp add: enter_loop_pass lockFallback_def emit_def)
    next
      case Continue
      with True b "1.prems" have ne: "attempt \<noteq> INT_MAX"
        by (auto simp add: enter_loop_pass)
      with True b "1.prems" Continue
      have "enter_loop hw q nretries (attempt + 1) w1 = Inr (m, w')"
        by (simp add: enter_loop_pass)
      from "1.IH" [OF True b [symmetric] Continue ne this] show ?thesis .
    qed
  qed
qed

subsection \<open>Callbacks and the trace\<close>

lemma emit_fields:
  "trace (emit e w) = trace w @ [e]"
  "fallback (emit e w) = fallback w"
  "in_txn (emit e w) = in_txn w"
  by (simp_all add: emit_def)

lemma cbs_register: "cbs (foldl registerCommitCallback sc hs) = cbs sc @ hs"
  by (induction hs arbitrary: sc) (simp_all add: registerCommitCallback_def)

lemma trace_callbacks:
  "trace (foldl (\<lambda>v cb. emit (Callback cb) v) w xs) = trace w @ map Callback xs"
  by (induction xs arbitrary: w) (simp_all add: emit_def)

lemma fallback_callbacks:
  "fallback (foldl (\<lambda>v cb. emit (Callback cb) v) w xs) = fallback w"
  by (induction xs arbitrary: w) (simp_all add: emit_def)

lemma count_callbacks: "count_list (map Callback xs) (Callback h) = count_list xs h"
  by (induction xs) simp_all

subsection \<open>Entry: a pass in which the transaction starts\<close>



subsection \<open>Entry: a pass that observes an abort\<close>

text \<open>
  C3, as amended. When a pass observes an explicit abort with the reserved code
  \<^verbatim>\<open>0xFF\<close>, it calls \<^verbatim>\<open>lockFallback()\<close> and at once \<^verbatim>\<open>unlockFallback()\<close>, so the lock
  is free again when the pass ends, and the loop goes on to \<^verbatim>\<open>++attempt\<close> without
  \<^verbatim>\<open>break\<close>. If a pass remains (\<^verbatim>\<open>attempt < nretries\<close>) the next pass runs, from the
  state after the wait. In the last pass (\<^verbatim>\<open>attempt = nretries\<close>, below \<^verbatim>\<open>INT_MAX\<close>)
  there is no next attempt: the loop is over and \<^verbatim>\<open>enter\<close> falls back, acquiring the
  lock a second time, and returns in locked mode.
\<close>
theorem contention_wait:
  assumes "abort_point hw q w = Some (s, wa)"
    and "contention hw s"
    and "sint attempt \<le> sint nretries"
  shows "(sint attempt < sint nretries \<longrightarrow>
            sint (attempt + 1) \<le> sint nretries \<and>
            enter_loop hw q nretries attempt w =
              enter_loop hw q nretries (attempt + 1)
                (wa\<lparr>fallback := Free, trace := trace wa @ [Lock, Unlock]\<rparr>))
       \<and> (attempt = nretries \<and> nretries \<noteq> INT_MAX \<longrightarrow>
            enter_loop hw q nretries attempt w =
              Inr (Locked, wa\<lparr>fallback := HeldBySelf, trace := trace wa @ [Lock, Unlock, Lock]\<rparr>))"
proof (intro conjI impI)
  assume lt: "sint attempt < sint nretries"
  then have ne: "attempt \<noteq> INT_MAX" by (rule sint_less_not_max)
  then have s: "sint (attempt + 1) = sint attempt + 1" by (rule sint_succ)
  with lt show "sint (attempt + 1) \<le> sint nretries" by simp
  from assms ne show "enter_loop hw q nretries attempt w =
      enter_loop hw q nretries (attempt + 1) (wa\<lparr>fallback := Free, trace := trace wa @ [Lock, Unlock]\<rparr>)"
    by (simp add: enter_loop_pass attempt_body_cases on_abort_contention)
next
  assume a: "attempt = nretries \<and> nretries \<noteq> INT_MAX"
  then have ne: "attempt \<noteq> INT_MAX" by simp
  then have "sint (attempt + 1) = sint attempt + 1" by (rule sint_succ)
  with a have "\<not> sint (attempt + 1) \<le> sint nretries" by simp
  with assms ne show "enter_loop hw q nretries attempt w =
      Inr (Locked, wa\<lparr>fallback := HeldBySelf, trace := trace wa @ [Lock, Unlock, Lock]\<rparr>)"
    by (simp add: enter_loop_pass attempt_body_cases on_abort_contention enter_loop_exhausted
        lockFallback_def emit_def)
qed

text \<open>
  \<^verbatim>\<open>enter(1)\<close> when both calls of \<^verbatim>\<open>_xbegin\<close> return \<^verbatim>\<open>0xFF000001\<close> (explicit, code
  \<^verbatim>\<open>0xFF\<close>): pass 0 waits and hands over to pass 1; pass 1 waits and \<^verbatim>\<open>enter\<close> falls
  back.
\<close>
theorem contention_wait_witness:
  "enter_loop intel_rtm isFallbackLocked 1 0 (initial HeldByOther (every_time 0xFF000001)) =
     enter_loop intel_rtm isFallbackLocked 1 1
       ((initial HeldByOther (every_time 0xFF000001))\<lparr>fallback := Free, xbegins := 1,
           trace := [XBegin, Lock, Unlock]\<rparr>)
   \<and> enter_loop intel_rtm isFallbackLocked 1 1
       ((initial HeldByOther (every_time 0xFF000001))\<lparr>fallback := Free, xbegins := 1,
           trace := [XBegin, Lock, Unlock]\<rparr>) =
     Inr (Locked, (initial HeldByOther (every_time 0xFF000001))\<lparr>fallback := HeldBySelf, xbegins := 2,
           trace := [XBegin, Lock, Unlock, XBegin, Lock, Unlock, Lock]\<rparr>)"
  using contention_wait [of intel_rtm isFallbackLocked "initial HeldByOther (every_time 0xFF000001)"
      "0xFF000001" "(initial HeldByOther (every_time 0xFF000001))\<lparr>xbegins := 1, trace := [XBegin]\<rparr>" 0 1]
    contention_wait [of intel_rtm isFallbackLocked
      "(initial HeldByOther (every_time 0xFF000001))\<lparr>fallback := Free, xbegins := 1,
           trace := [XBegin, Lock, Unlock]\<rparr>"
      "0xFF000001"
      "(initial HeldByOther (every_time 0xFF000001))\<lparr>fallback := Free, xbegins := 2,
           trace := [XBegin, Lock, Unlock, XBegin]\<rparr>" 1 1]
  by (simp add: abort_point_def initial_def every_time_def intel_rtm_def contention_def INT_MAX_def)

text \<open>
  C3 as it is written fails in the last pass. \<^verbatim>\<open>enter(0)\<close> makes one attempt; when its
  \<^verbatim>\<open>_xbegin\<close> returns \<^verbatim>\<open>0xFF000001\<close>, the pass waits for the lock and then no further
  \<^verbatim>\<open>_xbegin\<close> follows: the next thing \<^verbatim>\<open>enter\<close> does is the \<^verbatim>\<open>lockFallback()\<close> of line
  75, and it returns in locked mode.
\<close>
theorem contention_wait_counterexample:
  "enter intel_rtm isFallbackLocked 0 (initial Free (every_time 0xFF000001)) =
     Inr (Locked, (initial Free (every_time 0xFF000001))\<lparr>fallback := HeldBySelf, xbegins := 1,
           trace := [XBegin, Lock, Unlock, Lock]\<rparr>)"
  by (simp add: enter_def enter_loop_pass enter_loop_exhausted attempt_body_cases abort_point_def
      on_abort_def initial_def every_time_def intel_rtm_def INT_MAX_def lockFallback_def
      unlockFallback_def emit_def)



text \<open>
  The fallback, for every retry bound. When a pass observes an abort that is not the
  contention abort and whose retry hint is not set, \<^verbatim>\<open>enter\<close> leaves the loop in that
  pass, whatever \<^verbatim>\<open>attempt\<close> and \<^verbatim>\<open>nretries\<close> are, calls \<^verbatim>\<open>lockFallback()\<close> and returns
  in locked mode: no further \<^verbatim>\<open>_xbegin\<close> follows. The same acquisition happens when the
  loop ends by its condition. For a whole run with \<^verbatim>\<open>nretries\<close> below \<^verbatim>\<open>INT_MAX\<close>: when
  each of the \<^verbatim>\<open>nretries + 1\<close> calls of \<^verbatim>\<open>_xbegin\<close> reports an abort after which the loop
  goes on, \<^verbatim>\<open>enter\<close> makes exactly these calls, ends with \<^verbatim>\<open>lockFallback()\<close> and returns
  in locked mode, holding the lock.
\<close>
theorem enter_fallback:
  "(abort_point hw q w = Some (s, wa) \<and> sint attempt \<le> sint nretries \<and>
      \<not> contention hw s \<and> s AND XABORT_RETRY hw = 0 \<longrightarrow>
      enter_loop hw q nretries attempt w =
        Inr (Locked, wa\<lparr>fallback := HeldBySelf, trace := trace wa @ [Lock]\<rparr>))
   \<and> (\<not> sint attempt \<le> sint nretries \<longrightarrow>
      enter_loop hw q nretries attempt w =
        Inr (Locked, w\<lparr>fallback := HeldBySelf, trace := trace w @ [Lock]\<rparr>))
   \<and> (nretries \<noteq> INT_MAX \<and>
      (\<forall>k. int k \<le> sint nretries \<longrightarrow> keeps_going hw (xbegin_results w (xbegins w + k))) \<longrightarrow>
      (\<exists>w'. enter hw q nretries w = Inr (Locked, w') \<and> fallback w' = HeldBySelf \<and>
            xbegins w' = xbegins w + nat (sint nretries + 1) \<and>
            (\<exists>evs. trace w' = trace w @ evs @ [Lock])))"
proof (intro conjI impI)
  assume "abort_point hw q w = Some (s, wa) \<and> sint attempt \<le> sint nretries \<and>
      \<not> contention hw s \<and> s AND XABORT_RETRY hw = 0"
  then show "enter_loop hw q nretries attempt w =
        Inr (Locked, wa\<lparr>fallback := HeldBySelf, trace := trace wa @ [Lock]\<rparr>)"
    by (simp add: enter_loop_pass attempt_body_cases on_abort_break lockFallback_def emit_def)
next
  assume "\<not> sint attempt \<le> sint nretries"
  then show "enter_loop hw q nretries attempt w =
        Inr (Locked, w\<lparr>fallback := HeldBySelf, trace := trace w @ [Lock]\<rparr>)"
    by (simp add: enter_loop_exhausted lockFallback_def emit_def)
next
  assume a: "nretries \<noteq> INT_MAX \<and>
      (\<forall>k. int k \<le> sint nretries \<longrightarrow> keeps_going hw (xbegin_results w (xbegins w + k)))"
  then have "\<forall>k. int k \<le> sint nretries - sint (0 :: cint) \<longrightarrow>
      keeps_going hw (xbegin_results w (xbegins w + k))" by simp
  from enter_loop_all_aborted [of nretries 0 hw w q, OF conjunct1 [OF a] this]
  show "\<exists>w'. enter hw q nretries w = Inr (Locked, w') \<and> fallback w' = HeldBySelf \<and>
            xbegins w' = xbegins w + nat (sint nretries + 1) \<and>
            (\<exists>evs. trace w' = trace w @ evs @ [Lock])"
    by (simp add: enter_def)
qed

text \<open>
  Status \<^verbatim>\<open>4\<close> (a conflict, no retry hint) in pass 1 of \<^verbatim>\<open>enter(3)\<close>: fallback with two
  passes left. The loop past its bound (\<^verbatim>\<open>attempt = 4\<close>, \<^verbatim>\<open>nretries = 3\<close>). \<^verbatim>\<open>enter(3)\<close>
  when every \<^verbatim>\<open>_xbegin\<close> returns \<^verbatim>\<open>2\<close> (retry hint): four calls, then the lock.
\<close>
theorem enter_fallback_witness:
  "enter_loop intel_rtm isFallbackLocked 3 1 ((initial Free (every_time 4))\<lparr>xbegins := 1\<rparr>) =
     Inr (Locked, (initial Free (every_time 4))\<lparr>fallback := HeldBySelf, xbegins := 2,
                     trace := [XBegin, Lock]\<rparr>)
   \<and> enter_loop intel_rtm isFallbackLocked 3 4 (initial Free (every_time 4)) =
     Inr (Locked, (initial Free (every_time 4))\<lparr>fallback := HeldBySelf, trace := [Lock]\<rparr>)
   \<and> (\<exists>w'. enter intel_rtm isFallbackLocked 3 (initial Free (every_time 2)) = Inr (Locked, w') \<and>
         fallback w' = HeldBySelf \<and> xbegins w' = 4 \<and> (\<exists>evs. trace w' = evs @ [Lock]))"
  using enter_fallback [of intel_rtm isFallbackLocked "(initial Free (every_time 4))\<lparr>xbegins := 1\<rparr>"
      4 "(initial Free (every_time 4))\<lparr>xbegins := 2, trace := [XBegin]\<rparr>" 1 3]
    enter_fallback [of intel_rtm isFallbackLocked "initial Free (every_time 4)"
      4 "initial Free (every_time 4)" 4 3]
    enter_fallback [of intel_rtm isFallbackLocked "initial Free (every_time 2)"
      2 "initial Free (every_time 2)" 0 3]
  by (simp add: abort_point_def initial_def every_time_def intel_rtm_def contention_def
      keeps_going_def INT_MAX_def)

text \<open>
  C4 says that \<^verbatim>\<open>enter\<close> acquires the fallback lock and returns in locked mode when a
  pass observes an abort without retry hint that is not the contention abort, and also
  when all \<^verbatim>\<open>maxRetries + 1\<close> attempts are used up without success. The first half holds
  for every bound, and the second for every bound below \<^verbatim>\<open>INT_MAX\<close> (\<open>enter_fallback\<close>).
  At \<^verbatim>\<open>maxRetries = INT_MAX\<close> the code misses the second half: the condition
  \<^verbatim>\<open>attempt <= nretries\<close> cannot fail, so when every call of \<^verbatim>\<open>_xbegin\<close> returns an
  abort with the retry hint (status \<^verbatim>\<open>6\<close>, a conflict with the hint), the pass with
  \<^verbatim>\<open>attempt = INT_MAX\<close> is followed by \<^verbatim>\<open>++attempt\<close>, a signed overflow, and the
  \<^verbatim>\<open>lockFallback()\<close> of line 75 is not reached.
\<close>
theorem enter_overflows_at_INT_MAX:
  "enter intel_rtm isFallbackLocked INT_MAX (initial Free (every_time 6)) = Inl SignedOverflow"
proof -
  have "\<forall>k. keeps_going intel_rtm (xbegin_results (initial Free (every_time 6)) k)"
    by (simp add: keeps_going_def contention_def initial_def every_time_def intel_rtm_def)
  then show ?thesis
    unfolding enter_def by (rule enter_loop_overflow [OF refl])
qed

subsection \<open>Entry: the retry bound\<close>

text \<open>
  C10. For a negative retry bound the loop condition \<^verbatim>\<open>0 <= nretries\<close> fails at once:
  \<^verbatim>\<open>enter\<close> calls neither \<^verbatim>\<open>_xbegin\<close> nor \<^verbatim>\<open>isFallbackLocked\<close>; the only thing it
  does is \<^verbatim>\<open>lockFallback()\<close>, and it returns in locked mode. The state it returns is
  the one it was given with the lock held and \<open>Lock\<close> as the single new event.
\<close>
theorem enter_negative_bound:
  assumes "sint nretries < 0"
  shows "enter hw q nretries w =
           Inr (Locked, w\<lparr>fallback := HeldBySelf, trace := trace w @ [Lock]\<rparr>)"
  using assms by (simp add: enter_def enter_loop_exhausted lockFallback_def emit_def)

text \<open>\<^verbatim>\<open>enter(-1)\<close> where the hardware would start every transaction.\<close>
theorem enter_negative_bound_witness:
  "sint (- 1 :: cint) < 0 \<and>
   enter intel_rtm isFallbackLocked (- 1) (initial Free (every_time 0xFFFFFFFF)) =
     Inr (Locked, (initial Free (every_time 0xFFFFFFFF))\<lparr>fallback := HeldBySelf, trace := [Lock]\<rparr>)"
  using enter_negative_bound [of "- 1" intel_rtm isFallbackLocked "initial Free (every_time 0xFFFFFFFF)"]
  by (simp add: initial_def)




text \<open>
  C9, as amended. The constructor takes the lock reference and nothing else. It always
  runs \<^verbatim>\<open>enter\<close> with the default bound \<^verbatim>\<open>3\<close>, so construction returns after at most four
  calls of \<^verbatim>\<open>_xbegin\<close>, with an empty list of callbacks. A bound other than \<^verbatim>\<open>3\<close> can
  only be given to \<^verbatim>\<open>enter\<close> itself, which is public.
\<close>
theorem construct_default:
  "\<exists>m w'. construct hw q w = Inr (\<lparr>cbs = []\<rparr>, m, w') \<and> enter hw q 3 w = Inr (m, w') \<and>
          occurrences XBegin w' \<le> occurrences XBegin w + 4"
proof -
  have "(3 :: cint) \<noteq> INT_MAX" by (simp add: INT_MAX_def)
  from enter_loop_bounds [OF this, of hw q 0 w] show ?thesis
    by (auto simp add: construct_def enter_def)
qed

text \<open>Construction when every \<^verbatim>\<open>_xbegin\<close> returns an abort with the retry hint.\<close>
theorem construct_default_witness:
  "\<exists>m w'. construct intel_rtm isFallbackLocked (initial Free (every_time 2)) = Inr (\<lparr>cbs = []\<rparr>, m, w') \<and>
     enter intel_rtm isFallbackLocked 3 (initial Free (every_time 2)) = Inr (m, w') \<and>
     occurrences XBegin w' \<le> 4"
  using construct_default [of intel_rtm isFallbackLocked "initial Free (every_time 2)"]
  by (simp add: occurrences_def initial_def)

text \<open>
  C9 as it is written fails: construction offers no retry-count override. Where every
  \<^verbatim>\<open>_xbegin\<close> returns an abort with the retry hint, constructing a scope makes four
  attempts, the run of \<^verbatim>\<open>enter(3)\<close>; the six attempts of a bound of \<^verbatim>\<open>5\<close> are the run of
  \<^verbatim>\<open>enter(5)\<close>, which no construction performs.
\<close>
theorem construct_default_counterexample:
  "construct intel_rtm isFallbackLocked (initial Free (every_time 2)) =
     Inr (\<lparr>cbs = []\<rparr>, Locked, (initial Free (every_time 2))\<lparr>fallback := HeldBySelf, xbegins := 4,
            trace := [XBegin, XBegin, XBegin, XBegin, Lock]\<rparr>)
   \<and> enter intel_rtm isFallbackLocked 5 (initial Free (every_time 2)) =
     Inr (Locked, (initial Free (every_time 2))\<lparr>fallback := HeldBySelf, xbegins := 6,
            trace := [XBegin, XBegin, XBegin, XBegin, XBegin, XBegin, Lock]\<rparr>)"
  by (simp add: construct_def enter_def enter_loop_pass enter_loop_exhausted attempt_body_cases
      abort_point_def on_abort_def initial_def every_time_def intel_rtm_def INT_MAX_def
      lockFallback_def unlockFallback_def emit_def)

subsection \<open>Exit\<close>

text \<open>
  \<^verbatim>\<open>exit\<close> does not know how \<^verbatim>\<open>enter\<close> returned: it asks \<^verbatim>\<open>isFallbackLocked()\<close>.
  After a return inside the transaction the answer is "not held" as it was at entry,
  and \<^verbatim>\<open>exit\<close> commits, whatever the query. After a return in locked mode \<^verbatim>\<open>exit\<close>
  unlocks when the query reports the lock's state, as the one of the pthread mutex
  does; with the query the class defines, which answers "not held" whatever the lock's
  state, it calls \<^verbatim>\<open>_xend\<close> and never \<^verbatim>\<open>unlockFallback\<close>.
\<close>

lemma exit_mutex_query:
  "fallback w = HeldBySelf \<Longrightarrow>
     trace (exit isFallbackLocked_mutex sc w) =
       trace w @ [IsFallbackLocked, Unlock] @ map Callback (cbs sc)
     \<and> fallback (exit isFallbackLocked_mutex sc w) = Free"
  "fallback w = Free \<Longrightarrow>
     trace (exit isFallbackLocked_mutex sc w) =
       trace w @ [IsFallbackLocked, XEnd] @ map Callback (cbs sc)
     \<and> fallback (exit isFallbackLocked_mutex sc w) = Free"
  by (simp_all add: exit_def query_def isFallbackLocked_mutex_def xend_def unlockFallback_def
      emit_fields fallback_callbacks trace_callbacks)

lemma exit_default_query:
  "fallback (exit isFallbackLocked sc w) = fallback w"
  "trace (exit isFallbackLocked sc w) = trace w @ [IsFallbackLocked, XEnd] @ map Callback (cbs sc)"
  by (simp_all add: exit_def query_def isFallbackLocked_def xend_def emit_fields
      fallback_callbacks trace_callbacks)

lemma exit_after_transactional:
  assumes "enter hw q nretries w = Inr (Transactional, w')"
  shows "trace (exit q sc w') = trace w' @ [IsFallbackLocked, XEnd] @ map Callback (cbs sc)"
    and "fallback (exit q sc w') = fallback w'"
  using enter_loop_mode [OF assms [unfolded enter_def]]
  by (simp_all add: exit_def query_def xend_def emit_fields fallback_callbacks trace_callbacks)

lemma exit_after_locked_mutex:
  assumes "enter hw isFallbackLocked_mutex nretries w = Inr (Locked, w')"
  shows "trace (exit isFallbackLocked_mutex sc w') =
           trace w' @ [IsFallbackLocked, Unlock] @ map Callback (cbs sc)"
    and "fallback (exit isFallbackLocked_mutex sc w') = Free"
  using enter_loop_mode [OF assms [unfolded enter_def]]
  by (simp_all add: exit_mutex_query)

lemma exit_after_locked_default:
  assumes "enter hw isFallbackLocked nretries w = Inr (Locked, w')"
  shows "trace (exit isFallbackLocked sc w') =
           trace w' @ [IsFallbackLocked, XEnd] @ map Callback (cbs sc)"
    and "fallback (exit isFallbackLocked sc w') = HeldBySelf"
  using enter_loop_mode [OF assms [unfolded enter_def]]
  by (simp_all add: exit_default_query)

text \<open>
  C1 says that \<^verbatim>\<open>exit\<close> releases the lock of a scope that entered in locked mode, for
  every lock type, also one whose query always answers "not held". The code does not:
  with the query the class defines, \<^verbatim>\<open>enter(3)\<close> whose first \<^verbatim>\<open>_xbegin\<close> returns an
  abort without retry hint (status \<^verbatim>\<open>0\<close>) acquires the lock and returns in locked mode;
  \<^verbatim>\<open>exit\<close> of that scope then calls \<^verbatim>\<open>_xend\<close>, outside any transaction, and not
  \<^verbatim>\<open>unlockFallback\<close>: the lock is still held by this thread when \<^verbatim>\<open>exit\<close> is over.
\<close>
theorem exit_keeps_lock:
  "enter intel_rtm isFallbackLocked 3 (initial Free (every_time 0)) =
     Inr (Locked, (initial Free (every_time 0))\<lparr>fallback := HeldBySelf, xbegins := 1,
            trace := [XBegin, Lock]\<rparr>)
   \<and> exit isFallbackLocked \<lparr>cbs = []\<rparr>
       ((initial Free (every_time 0))\<lparr>fallback := HeldBySelf, xbegins := 1, trace := [XBegin, Lock]\<rparr>) =
     (initial Free (every_time 0))\<lparr>fallback := HeldBySelf, xbegins := 1,
        trace := [XBegin, Lock, IsFallbackLocked, XEnd]\<rparr>"
  by (simp add: enter_def enter_loop_pass attempt_body_cases
      abort_point_def on_abort_def initial_def every_time_def intel_rtm_def INT_MAX_def
      lockFallback_def emit_def exit_def query_def isFallbackLocked_def xend_def)

text \<open>
  The order of the calls in \<^verbatim>\<open>exit\<close>, for every scope, every query and every sequence
  \<open>hs\<close> of handlers registered on the scope: first the query, then the one call that
  \<^verbatim>\<open>exit\<close> chooses by its answer (\<^verbatim>\<open>unlockFallback\<close> or \<^verbatim>\<open>_xend\<close>), and only then the
  callbacks: those the scope held already, then \<open>hs\<close>, each registration once, in the
  order of registration. For a scope as the constructor leaves it these are exactly
  \<open>hs\<close>. A handler is called as often as it was registered.
\<close>
theorem exit_callbacks:
  "trace (exit q (foldl registerCommitCallback sc hs) w) =
     trace w @ [IsFallbackLocked, if q (fallback w) then Unlock else XEnd] @ map Callback (cbs sc @ hs)
   \<and> trace (exit q (foldl registerCommitCallback \<lparr>cbs = []\<rparr> hs) w) =
     trace w @ [IsFallbackLocked, if q (fallback w) then Unlock else XEnd] @ map Callback hs
   \<and> count_list (map Callback hs) (Callback h) = count_list hs h"
  by (simp add: exit_def query_def Let_def trace_callbacks cbs_register count_callbacks
      unlockFallback_def xend_def emit_fields)

text \<open>Handlers 7, 5 and 7 again, registered in this order on a scope that holds the lock.\<close>
theorem exit_callbacks_witness:
  "trace (exit isFallbackLocked_mutex
      (registerCommitCallback (registerCommitCallback (registerCommitCallback \<lparr>cbs = []\<rparr> 7) 5) 7)
      ((initial HeldBySelf (every_time 0))\<lparr>trace := [XBegin, Lock]\<rparr>)) =
     [XBegin, Lock, IsFallbackLocked, Unlock, Callback 7, Callback 5, Callback 7]"
  using exit_callbacks [of isFallbackLocked_mutex "\<lparr>cbs = []\<rparr>" "[7, 5, 7]"
      "(initial HeldBySelf (every_time 0))\<lparr>trace := [XBegin, Lock]\<rparr>" 7]
  by (simp add: initial_def isFallbackLocked_mutex_def)

text \<open>
  C5 says that \<^verbatim>\<open>exit\<close> calls every registered callback once, in the order of
  registration, and only after the critical section has been ended: the transaction
  committed or the lock released. Order and number are as it says (\<open>exit_callbacks\<close>).
  But for a scope that entered in locked mode, with the query the class defines, the
  critical section has not been ended when the callbacks run: \<^verbatim>\<open>enter(3)\<close> whose first
  \<^verbatim>\<open>_xbegin\<close> returns status \<^verbatim>\<open>4\<close> (a conflict, no retry hint) acquires the lock; \<^verbatim>\<open>exit\<close>
  of that scope with the handlers 1 and 2 registered calls \<^verbatim>\<open>_xend\<close>, where no
  transaction is open, and then the two callbacks, and the lock is held by this thread
  throughout: no \<open>Unlock\<close> is in the trace.
\<close>
theorem callbacks_while_lock_held:
  "enter intel_rtm isFallbackLocked 3 (initial Free (every_time 4)) =
     Inr (Locked, (initial Free (every_time 4))\<lparr>fallback := HeldBySelf, xbegins := 1,
            trace := [XBegin, Lock]\<rparr>)
   \<and> exit isFallbackLocked (registerCommitCallback (registerCommitCallback \<lparr>cbs = []\<rparr> 1) 2)
       ((initial Free (every_time 4))\<lparr>fallback := HeldBySelf, xbegins := 1, trace := [XBegin, Lock]\<rparr>) =
     (initial Free (every_time 4))\<lparr>fallback := HeldBySelf, xbegins := 1,
        trace := [XBegin, Lock, IsFallbackLocked, XEnd, Callback 1, Callback 2]\<rparr>"
  by (simp add: enter_def enter_loop_pass attempt_body_cases
      abort_point_def on_abort_def initial_def every_time_def intel_rtm_def INT_MAX_def
      lockFallback_def emit_def exit_def query_def isFallbackLocked_def xend_def
      registerCommitCallback_def)

subsection \<open>What one thread does while another holds the lock\<close>

text \<open>
  The embedding follows one thread; the other thread is present as the state
  \<open>HeldByOther\<close> of the lock: it holds the lock, so it is inside the critical section in
  locked mode. A scope must then not hand control to the body inside a transaction.
  With a query that reports the lock's state it does not: a scope that returns inside
  its transaction has seen the lock free.
\<close>

lemma enter_mutex_sees_lock_free:
  assumes "enter hw isFallbackLocked_mutex nretries w = Inr (Transactional, w')"
  shows "fallback w' = Free"
  using enter_loop_mode [OF assms [unfolded enter_def]]
  by (simp add: isFallbackLocked_mutex_def)

text \<open>
  C6 says that a thread that enters transactionally never runs the body while another
  thread is inside the critical section in locked mode. With the query the class
  defines the code does not keep this: while another thread holds the lock and
  \<^verbatim>\<open>_xbegin\<close> returns \<^verbatim>\<open>_XBEGIN_STARTED\<close>, \<^verbatim>\<open>enter(3)\<close> asks the query, is told "not
  held", and returns inside the transaction, without having read the lock; \<^verbatim>\<open>exit\<close> of
  that scope then commits with \<^verbatim>\<open>_xend\<close>. The lock is held by the other thread before,
  between and after the two.
\<close>
theorem transactional_while_lock_held:
  "enter intel_rtm isFallbackLocked 3 (initial HeldByOther (every_time 0xFFFFFFFF)) =
     Inr (Transactional, (initial HeldByOther (every_time 0xFFFFFFFF))\<lparr>xbegins := 1, in_txn := True,
            trace := [XBegin, IsFallbackLocked]\<rparr>)
   \<and> exit isFallbackLocked \<lparr>cbs = []\<rparr>
       ((initial HeldByOther (every_time 0xFFFFFFFF))\<lparr>xbegins := 1, in_txn := True,
            trace := [XBegin, IsFallbackLocked]\<rparr>) =
     (initial HeldByOther (every_time 0xFFFFFFFF))\<lparr>xbegins := 1,
        trace := [XBegin, IsFallbackLocked, IsFallbackLocked, XEnd]\<rparr>
   \<and> fallback (initial HeldByOther (every_time 0xFFFFFFFF)) = HeldByOther"
  by (simp add: enter_def enter_loop_pass attempt_body_cases abort_point_def initial_def
      every_time_def intel_rtm_def isFallbackLocked_def exit_def query_def xend_def emit_def)

end
